theory Spec2Isabelle
  imports Main "HOL-Library.Multiset" "HOL-Library.Product_Lexorder"
    "HOL-Library.Char_ord" "HOL-Library.List_Lexorder"
begin

section \<open>Five-card poker hands (poker.py)\<close>

text \<open>
  The module is Python 2 (\<^verbatim>\<open>print\<close> statement, \<^verbatim>\<open>counts.values().count(2)\<close>,
  a list compared with \<^verbatim>\<open>range(..)\<close>). Python integers are \<open>int\<close>, a \<^verbatim>\<open>str\<close> is a
  \<open>string\<close>, a one-character \<^verbatim>\<open>str\<close> (the suit) is a \<open>char\<close>. Every exception the code can
  raise is a value of \<open>error\<close>, and a function that can raise returns \<open>error + 'a\<close>.
  The \<^verbatim>\<open>assert\<close> statements are executed (the interpreter does not run with \<^verbatim>\<open>-O\<close>).
\<close>

subsection \<open>Exceptions\<close>

datatype error =
    IndexError
  | AssertionError string
  | NameError string
  | KeyError
  | TypeError

subsection \<open>Card\<close>

text \<open>The module-level table \<^verbatim>\<open>RANK_NAME_TO_RANK\<close> (lines 122-136).\<close>

definition RANK_NAME_TO_RANK :: "(string \<times> int) list" where
  "RANK_NAME_TO_RANK =
     [(''2'', 2), (''3'', 3), (''4'', 4), (''5'', 5), (''6'', 6), (''7'', 7), (''8'', 8),
      (''9'', 9), (''10'', 10), (''J'', 11), (''Q'', 12), (''K'', 13), (''A'', 14)]"

record Card =
  name :: string
  rank :: int
  suit :: char

text \<open>
  \<^verbatim>\<open>Card.__init__\<close> (lines 142-179). \<^verbatim>\<open>name[0:-1]\<close> is \<open>butlast\<close> and never raises;
  \<^verbatim>\<open>name[-1]\<close> raises IndexError on the empty string, before either assertion is reached.
  \<^verbatim>\<open>suit in "hdcs"\<close> is a substring test, which for the one-character \<^verbatim>\<open>suit\<close> is
  membership. The rank assertion comes first.
\<close>

definition Card_init :: "string \<Rightarrow> error + Card" where
  "Card_init nm =
     (let rank_text = butlast nm in
      if nm = [] then Inl IndexError
      else
        let suit_char = last nm in
        case map_of RANK_NAME_TO_RANK rank_text of
          None \<Rightarrow> Inl (AssertionError (''Bad rank: '' @ nm))
        | Some r \<Rightarrow>
            if suit_char \<notin> set ''hdcs'' then Inl (AssertionError (''Bad suit: '' @ nm))
            else Inr \<lparr>name = nm, rank = r, suit = suit_char\<rparr>)"

text \<open>\<^verbatim>\<open>Card.__eq__\<close> (line 192) and \<^verbatim>\<open>Card.__hash__\<close> (line 195). The hash of the name is
  modelled by the name itself: equal names hash alike, and where two different names
  collide Python consults \<^verbatim>\<open>__eq__\<close>, as \<open>set_add\<close> below does.\<close>

definition Card_eq :: "Card \<Rightarrow> Card \<Rightarrow> bool" where
  "Card_eq self other = (rank self = rank other \<and> suit self = suit other)"

definition Card_hash :: "Card \<Rightarrow> string" where
  "Card_hash self = name self"

subsection \<open>Hand construction\<close>

text \<open>
  The argument of \<^verbatim>\<open>Hand(..)\<close>: a \<^verbatim>\<open>str\<close>, or a sequence whose elements are each a
  \<^verbatim>\<open>Card\<close> or a token to be parsed by \<^verbatim>\<open>Card(..)\<close>.
\<close>

datatype item = CardObj Card | Token string

datatype hand_arg = Str string | Seq "item list"

record Hand =
  cards :: "Card list"

text \<open>\<^verbatim>\<open>str.split()\<close> without arguments: the maximal runs of non-whitespace characters.\<close>

definition isspace :: "char \<Rightarrow> bool" where
  "isspace c = (c \<in> set [CHR '' '', CHR 0x09, CHR 0x0A, CHR 0x0B, CHR 0x0C, CHR 0x0D])"

fun split_from :: "string \<Rightarrow> string \<Rightarrow> string list" where
  "split_from w [] = (if w = [] then [] else [w])"
| "split_from w (c # cs) =
     (if isspace c then (if w = [] then split_from [] cs else w # split_from [] cs)
      else split_from (w @ [c]) cs)"

definition split :: "string \<Rightarrow> string list" where
  "split s = split_from [] s"

text \<open>The list comprehension of line 237, left to right; the first failing token raises.\<close>

fun to_card :: "item \<Rightarrow> error + Card" where
  "to_card (CardObj c) = Inr c"
| "to_card (Token t) = Card_init t"

fun to_cards :: "item list \<Rightarrow> error + Card list" where
  "to_cards [] = Inr []"
| "to_cards (x # xs) =
     (case to_card x of
        Inl e \<Rightarrow> Inl e
      | Inr c \<Rightarrow> (case to_cards xs of Inl e \<Rightarrow> Inl e | Inr cs \<Rightarrow> Inr (c # cs)))"

text \<open>\<^verbatim>\<open>set(self.cards)\<close>: an element is dropped when one with the same hash that is
  \<^verbatim>\<open>__eq__\<close> to it is already present.\<close>

fun set_add :: "Card \<Rightarrow> Card list \<Rightarrow> Card list" where
  "set_add c [] = [c]"
| "set_add c (d # ds) =
     (if Card_hash c = Card_hash d \<and> Card_eq c d then d # ds else d # set_add c ds)"

definition py_set :: "Card list \<Rightarrow> Card list" where
  "py_set cs = foldl (\<lambda>s c. set_add c s) [] cs"

text \<open>\<^verbatim>\<open>Hand.__init__\<close> (lines 213-240). The cards are stored as supplied.\<close>

definition Hand_init :: "hand_arg \<Rightarrow> error + Hand" where
  "Hand_init arg =
     (let items = (case arg of Str s \<Rightarrow> map Token (split s) | Seq xs \<Rightarrow> xs) in
      case to_cards items of
        Inl e \<Rightarrow> Inl e
      | Inr cs \<Rightarrow>
          if length cs \<noteq> 5 then Inl (AssertionError ''Hands must have 5 cards.'')
          else if length (py_set cs) \<noteq> 5
            then Inl (AssertionError ''Cards in hand must be distinct!'')
          else Inr \<lparr>cards = cs\<rparr>)"

subsection \<open>Classification\<close>

text \<open>The sort key of lines 255 and 273: \<^verbatim>\<open>lambda c: (14 - c.rank, -ord(c.suit))\<close>;
  tuples compare lexicographically.\<close>

definition card_key :: "Card \<Rightarrow> int \<times> int" where
  "card_key c = (14 - rank c, - int (of_char (suit c)))"

text \<open>Python 2's \<^verbatim>\<open>range(a, b)\<close> is the list of integers from \<open>a\<close> up to \<open>b - 1\<close>.\<close>

definition range_py :: "int \<Rightarrow> int \<Rightarrow> int list" where
  "range_py a b = [a..b - 1]"

text \<open>\<^verbatim>\<open>Hand.is_consecutive\<close> (lines 259-266); \<^verbatim>\<open>rank_list[0]\<close> and \<^verbatim>\<open>rank_list[-1]\<close>
  raise IndexError on an empty list.\<close>

definition is_consecutive :: "Hand \<Rightarrow> error + bool" where
  "is_consecutive self =
     (let rank_list = sort (map rank (cards self)) in
      if rank_list = [] then Inl IndexError
      else if rank_list = range_py (hd rank_list) (last rank_list + 1) then Inr True
      else if rank_list = [2, 3, 4, 5, 14] then Inr True
      else Inr False)"

text \<open>\<^verbatim>\<open>collections.Counter(ranks)\<close> as the list of its items, one per distinct rank. Python 2
  leaves the order of a dict's items unspecified; every use below is insensitive to
  it (a sort with a key that is injective on the items, a membership test, a count).\<close>

definition Counter :: "int list \<Rightarrow> (int \<times> int) list" where
  "Counter xs = map (\<lambda>x. (x, int (count_list xs x))) (remdups xs)"

text \<open>\<^verbatim>\<open>Hand.eval\<close> (lines 269-320). \<^verbatim>\<open>sorted_by_counts[0]\<close> raises IndexError on an
  empty list.\<close>

definition eval :: "Hand \<Rightarrow> error + (string \<times> int)" where
  "eval self =
     (let sorted_hand = sort_key card_key (cards self);
          suits = remdups (map suit sorted_hand);
          flush_status = (length suits = 1)
      in case is_consecutive self of
           Inl e \<Rightarrow> Inl e
         | Inr straight_status \<Rightarrow>
             let ranks = map rank sorted_hand;
                 counts = Counter ranks;
                 sorted_by_counts = sort_key (\<lambda>tup. (- snd tup, - fst tup)) counts
             in if sorted_by_counts = [] then Inl IndexError
                else
                  let determining = fst (hd sorted_by_counts);
                      vals = map snd counts
                  in if straight_status \<and> flush_status then Inr (''straight flush'', determining)
                     else if 4 \<in> set vals then Inr (''four of a kind'', determining)
                     else if 3 \<in> set vals \<and> 2 \<in> set vals then Inr (''full house'', determining)
                     else if flush_status then Inr (''flush'', determining)
                     else if straight_status then Inr (''straight'', determining)
                     else if 3 \<in> set vals then Inr (''three of a kind'', determining)
                     else if count_list vals 2 > 1 then Inr (''two pair'', determining)
                     else if 2 \<in> set vals then Inr (''pair'', determining)
                     else Inr (''high card'', determining))"

subsection \<open>Display\<close>

text \<open>\<^verbatim>\<open>sep.join(xs)\<close>.\<close>

fun join :: "string \<Rightarrow> string list \<Rightarrow> string" where
  "join sep [] = []"
| "join sep [x] = x"
| "join sep (x # y # ys) = x @ sep @ join sep (y # ys)"

text \<open>\<^verbatim>\<open>Hand.__repr__\<close> (lines 242-257); \<^verbatim>\<open>str(c)\<close> is the card's name (line 184).\<close>

definition Hand_repr :: "Hand \<Rightarrow> string" where
  "Hand_repr self =
     (let hand = sort_key card_key (cards self)
      in ''<Hand '' @ join '' '' (map name hand) @ ''>'')"

subsection \<open>Comparison\<close>

text \<open>The class attribute \<^verbatim>\<open>Hand.hierarchy\<close> (lines 201-211).\<close>

definition hierarchy :: "(string \<times> int) list" where
  "hierarchy =
     [(''straight flush'', 9), (''four of a kind'', 8), (''full house'', 7), (''flush'', 6),
      (''straight'', 5), (''three of a kind'', 4), (''two pair'', 3), (''pair'', 2),
      (''high card'', 1)]"

text \<open>
  Inside a method a bare name is looked up among the locals, then in the module's global
  namespace (then among the builtins, which have no \<^verbatim>\<open>hierarchy\<close>); the attributes of the
  enclosing class are not in scope. The module binds four names at top level.
\<close>

datatype pyobj = ModuleObj | ClassObj | DictObj "(string \<times> int) list"

definition module_globals :: "(string \<times> pyobj) list" where
  "module_globals =
     [(''collections'', ModuleObj), (''RANK_NAME_TO_RANK'', DictObj RANK_NAME_TO_RANK),
      (''Card'', ClassObj), (''Hand'', ClassObj)]"

definition load_global :: "string \<Rightarrow> error + pyobj" where
  "load_global n = (case map_of module_globals n of None \<Rightarrow> Inl (NameError n) | Some v \<Rightarrow> Inr v)"

text \<open>\<^verbatim>\<open>obj[key]\<close> with a tuple as key: the keys of the dicts here are strings, which a
  tuple never equals; modules and classes are not subscriptable.\<close>

fun getitem :: "pyobj \<Rightarrow> string \<times> int \<Rightarrow> error + int" where
  "getitem (DictObj d) k = Inl KeyError"
| "getitem ModuleObj k = Inl TypeError"
| "getitem ClassObj k = Inl TypeError"

text \<open>\<^verbatim>\<open>Hand.__eq__\<close> (line 345) and \<^verbatim>\<open>Hand.__ne__\<close> (line 357): equality of the tuples.\<close>

definition Hand_eq :: "Hand \<Rightarrow> Hand \<Rightarrow> error + bool" where
  "Hand_eq self other =
     (case eval self of
        Inl e \<Rightarrow> Inl e
      | Inr a \<Rightarrow> (case eval other of Inl e \<Rightarrow> Inl e | Inr b \<Rightarrow> Inr (a = b)))"

definition Hand_ne :: "Hand \<Rightarrow> Hand \<Rightarrow> error + bool" where
  "Hand_ne self other =
     (case eval self of
        Inl e \<Rightarrow> Inl e
      | Inr a \<Rightarrow> (case eval other of Inl e \<Rightarrow> Inl e | Inr b \<Rightarrow> Inr (a \<noteq> b)))"

text \<open>\<^verbatim>\<open>Hand.__lt__\<close> (lines 359-373). The result is \<^verbatim>\<open>True\<close> or, where the method falls
  off its end, \<^verbatim>\<open>None\<close>. Each operand of \<^verbatim>\<open><\<close> first loads the name \<^verbatim>\<open>hierarchy\<close>.\<close>

definition Hand_lt :: "Hand \<Rightarrow> Hand \<Rightarrow> error + bool option" where
  "Hand_lt self other =
     (case load_global ''hierarchy'' of
        Inl e \<Rightarrow> Inl e
      | Inr tbl1 \<Rightarrow>
     (case eval self of
        Inl e \<Rightarrow> Inl e
      | Inr k1 \<Rightarrow>
     (case getitem tbl1 k1 of
        Inl e \<Rightarrow> Inl e
      | Inr r1 \<Rightarrow>
     (case load_global ''hierarchy'' of
        Inl e \<Rightarrow> Inl e
      | Inr tbl2 \<Rightarrow>
     (case eval other of
        Inl e \<Rightarrow> Inl e
      | Inr k2 \<Rightarrow>
     (case getitem tbl2 k2 of
        Inl e \<Rightarrow> Inl e
      | Inr r2 \<Rightarrow>
          if r1 < r2 then Inr (Some True)
          else (case eval self of Inl e \<Rightarrow> Inl e | Inr _ \<Rightarrow> Inr None)))))))"

text \<open>Python 2 compares two tuples at the first position where they differ; strings
  compare lexicographically by character code.\<close>

definition tuple_le :: "string \<times> int \<Rightarrow> string \<times> int \<Rightarrow> bool" where
  "tuple_le a b =
     (if fst a \<noteq> fst b then fst a \<le> fst b
      else if snd a \<noteq> snd b then snd a \<le> snd b
      else True)"

text \<open>\<^verbatim>\<open>Hand.__le__\<close> (line 385).\<close>

definition Hand_le :: "Hand \<Rightarrow> Hand \<Rightarrow> error + bool" where
  "Hand_le self other =
     (case eval self of
        Inl e \<Rightarrow> Inl e
      | Inr a \<Rightarrow> (case eval other of Inl e \<Rightarrow> Inl e | Inr b \<Rightarrow> Inr (tuple_le a b)))"

text \<open>The class defines neither \<^verbatim>\<open>__gt__\<close> nor \<^verbatim>\<open>__ge__\<close>: Python evaluates \<^verbatim>\<open>a > b\<close>
  by the reflected \<^verbatim>\<open>b.__lt__(a)\<close> and \<^verbatim>\<open>a >= b\<close> by \<^verbatim>\<open>b.__le__(a)\<close>.\<close>

definition Hand_gt :: "Hand \<Rightarrow> Hand \<Rightarrow> error + bool option" where
  "Hand_gt self other = Hand_lt other self"

definition Hand_ge :: "Hand \<Rightarrow> Hand \<Rightarrow> error + bool" where
  "Hand_ge self other = Hand_le other self"

subsection \<open>Notions of the specification\<close>

text \<open>A card value that \<^verbatim>\<open>Card(..)\<close> can have produced: it is what parsing its own name
  gives.\<close>

definition valid_card :: "Card \<Rightarrow> bool" where
  "valid_card c = (Card_init (name c) = Inr c)"

text \<open>Canonical order, in the specification's words: descending rank, and within equal
  ranks descending suit character code.\<close>

definition canonical :: "Card list \<Rightarrow> bool" where
  "canonical cs =
     sorted_wrt (\<lambda>c d. rank c > rank d \<or>
                       (rank c = rank d \<and> (of_char (suit c) :: nat) \<ge> of_char (suit d))) cs"

text \<open>The classification table of the specification, read off its words and not from
  \<open>eval\<close>: all cards share one suit; the ranks are five consecutive integers (all
  distinct, maximum minus minimum 4) or the rank multiset is that of the wheel; the
  occurrence count of a rank; and the nine rows in priority order.\<close>

definition spec_is_flush :: "Card list \<Rightarrow> bool" where
  "spec_is_flush cs = (\<forall>c \<in> set cs. \<forall>d \<in> set cs. suit c = suit d)"

definition spec_is_straight :: "Card list \<Rightarrow> bool" where
  "spec_is_straight cs =
     (let rs = map rank cs in
      (distinct rs \<and> Max (set rs) - Min (set rs) = 4) \<or> mset rs = mset [2, 3, 4, 5, 14])"

definition spec_count :: "Card list \<Rightarrow> int \<Rightarrow> nat" where
  "spec_count cs r = count (mset (map rank cs)) r"

definition spec_category :: "Card list \<Rightarrow> string" where
  "spec_category cs =
     (let rs = set (map rank cs) in
      if spec_is_straight cs \<and> spec_is_flush cs then ''straight flush''
      else if \<exists>r \<in> rs. spec_count cs r = 4 then ''four of a kind''
      else if \<exists>r \<in> rs. \<exists>q \<in> rs. q \<noteq> r \<and> spec_count cs r = 3 \<and> spec_count cs q = 2
        then ''full house''
      else if spec_is_flush cs then ''flush''
      else if spec_is_straight cs then ''straight''
      else if \<exists>r \<in> rs. spec_count cs r = 3 then ''three of a kind''
      else if \<exists>r \<in> rs. \<exists>q \<in> rs. q \<noteq> r \<and> spec_count cs r = 2 \<and> spec_count cs q = 2
        then ''two pair''
      else if \<exists>r \<in> rs. spec_count cs r = 2 then ''pair''
      else ''high card'')"

text \<open>The card an element of the argument sequence stands for: a card for itself, a token
  for the card that \<^verbatim>\<open>Card(..)\<close> parses from it.\<close>

fun stands_for :: "item \<Rightarrow> Card \<Rightarrow> bool" where
  "stands_for (CardObj d) c = (d = c)"
| "stands_for (Token t) c = (Card_init t = Inr c)"

text \<open>An element whose card, when it is given as a card, is one \<^verbatim>\<open>Card(..)\<close> can have
  produced.\<close>

fun valid_item :: "item \<Rightarrow> bool" where
  "valid_item (CardObj c) = valid_card c"
| "valid_item (Token t) = True"

text \<open>A whitespace-separated string: a run of whitespace characters (space, tab, newline,
  vertical tab, form feed, carriage return), then the tokens, each followed by its own
  run.\<close>

definition whitespace_run :: "string \<Rightarrow> bool" where
  "whitespace_run g =
     (set g \<subseteq> {CHR '' '', CHR 0x09, CHR 0x0A, CHR 0x0B, CHR 0x0C, CHR 0x0D})"

fun spaced :: "string list \<Rightarrow> string list \<Rightarrow> string" where
  "spaced (t # ts) (g # gs) = t @ g @ spaced ts gs"
| "spaced ts gs = []"

text \<open>The five cards of the doctest of \<^verbatim>\<open>Hand.__init__\<close> (lines 216-223).\<close>

definition doctest_cards :: "Card list" where
  "doctest_cards =
     [\<lparr>name = ''As'', rank = 14, suit = CHR ''s''\<rparr>, \<lparr>name = ''Ks'', rank = 13, suit = CHR ''s''\<rparr>,
      \<lparr>name = ''Qs'', rank = 12, suit = CHR ''s''\<rparr>, \<lparr>name = ''Js'', rank = 11, suit = CHR ''s''\<rparr>,
      \<lparr>name = ''10s'', rank = 10, suit = CHR ''s''\<rparr>]"

text \<open>The hand that \<^verbatim>\<open>Hand(s)\<close> returns for a string \<open>s\<close> on which it succeeds; the
  statements that use it say that it does.\<close>

abbreviation hand :: "string \<Rightarrow> Hand" where
  "hand s \<equiv> projr (Hand_init (Str s))"

section \<open>Cards\<close>

lemma rank_table_inj:
  "map_of RANK_NAME_TO_RANK a = Some r \<Longrightarrow> map_of RANK_NAME_TO_RANK b = Some r \<Longrightarrow> a = b"
  by (simp add: RANK_NAME_TO_RANK_def split: if_splits)

lemma Card_init_Inr:
  "Card_init nm = Inr c \<longleftrightarrow>
     nm \<noteq> [] \<and> map_of RANK_NAME_TO_RANK (butlast nm) = Some (rank c) \<and> last nm \<in> set ''hdcs''
     \<and> name c = nm \<and> suit c = last nm"
  by (auto simp: Card_init_def Let_def split: option.splits)

text \<open>On a non-empty token the two assertions decide: the token is accepted exactly
  when its rank text is in the table and its last character is a suit, and it is
  rejected by an assertion otherwise.\<close>

lemma Card_init_nonempty:
  assumes "nm \<noteq> []"
  shows "Card_init nm =
     (case map_of RANK_NAME_TO_RANK (butlast nm) of
        None \<Rightarrow> Inl (AssertionError (''Bad rank: '' @ nm))
      | Some r \<Rightarrow>
          if last nm \<in> set ''hdcs'' then Inr \<lparr>name = nm, rank = r, suit = last nm\<rparr>
          else Inl (AssertionError (''Bad suit: '' @ nm)))"
  using assms by (simp add: Card_init_def Let_def split: option.splits)

lemma rank_text_iff:
  "map_of RANK_NAME_TO_RANK t \<noteq> None \<longleftrightarrow>
     t \<in> {''A'', ''K'', ''Q'', ''J'', ''10'', ''9'', ''8'', ''7'', ''6'', ''5'', ''4'', ''3'', ''2''}"
  by (simp add: RANK_NAME_TO_RANK_def)

lemma valid_card_eq:
  assumes "valid_card c" "valid_card d" "Card_eq c d"
  shows "c = d"
proof -
  from assms(1) have c: "name c \<noteq> []"
    "map_of RANK_NAME_TO_RANK (butlast (name c)) = Some (rank c)" "suit c = last (name c)"
    by (simp_all add: valid_card_def Card_init_Inr)
  from assms(2) have d: "name d \<noteq> []"
    "map_of RANK_NAME_TO_RANK (butlast (name d)) = Some (rank d)" "suit d = last (name d)"
    by (simp_all add: valid_card_def Card_init_Inr)
  from assms(3) have e: "rank c = rank d" "suit c = suit d"
    by (simp_all add: Card_eq_def)
  have "butlast (name c) = butlast (name d)"
    using c(2) d(2) e(1) by (auto intro: rank_table_inj)
  moreover have "last (name c) = last (name d)"
    using c(3) d(3) e(2) by simp
  ultimately have "name c = name d"
    using c(1) d(1) by (metis append_butlast_last_id)
  with e show ?thesis by simp
qed

section \<open>Hand construction\<close>

lemma set_add_eq: "set_add c ds = (if c \<in> set ds then ds else ds @ [c])"
  by (induction ds) (auto simp: Card_hash_def Card_eq_def)

lemma py_set_aux:
  "distinct s \<Longrightarrow>
     distinct (foldl (\<lambda>s c. set_add c s) s cs) \<and>
     set (foldl (\<lambda>s c. set_add c s) s cs) = set s \<union> set cs"
  by (induction cs arbitrary: s) (auto simp: set_add_eq)

lemma length_py_set: "length (py_set cs) = card (set cs)"
  using py_set_aux[of "[]" cs]
  by (metis distinct.simps(1) distinct_card py_set_def set_simps(1) sup_bot_left)

lemma py_set_full: "length (py_set cs) = length cs \<longleftrightarrow> distinct cs"
  by (auto simp: length_py_set distinct_card intro: card_distinct)

lemma Hand_init_Inr:
  "Hand_init arg = Inr h \<longleftrightarrow>
     to_cards (case arg of Str s \<Rightarrow> map Token (split s) | Seq xs \<Rightarrow> xs) = Inr (cards h)
     \<and> length (cards h) = 5 \<and> distinct (cards h)"
  using py_set_full[of "cards h"]
  by (auto simp: Hand_init_def Let_def length_py_set distinct_card split: sum.splits
      dest: card_distinct)

lemma Hand_init_length: "Hand_init arg = Inr h \<Longrightarrow> length (cards h) = 5"
  by (simp add: Hand_init_Inr)

lemma to_cards_CardObj: "to_cards (map CardObj cs) = Inr cs"
  by (induction cs) auto

section \<open>Facts about lists and finite sets\<close>

lemma card_image_1:
  assumes "A \<noteq> {}"
  shows "(card (f ` A) = 1) = (\<forall>c\<in>A. \<forall>d\<in>A. f c = f d)"
proof
  assume "card (f ` A) = 1"
  then obtain x where x: "f ` A = {x}"
    by (auto simp: card_1_singleton_iff)
  show "\<forall>c\<in>A. \<forall>d\<in>A. f c = f d"
  proof (intro ballI)
    fix c d assume "c \<in> A" "d \<in> A"
    then have "f c \<in> {x}" "f d \<in> {x}" using x by blast+
    then show "f c = f d" by simp
  qed
next
  assume a: "\<forall>c\<in>A. \<forall>d\<in>A. f c = f d"
  from assms obtain a0 where a0: "a0 \<in> A" by blast
  with a have "\<forall>x\<in>A. f x = f a0" by blast
  with a0 have "f ` A = {f a0}" by blast
  then show "card (f ` A) = 1" by simp
qed

lemma card_gt1: "finite S \<Longrightarrow> (1 < card S) = (\<exists>x\<in>S. \<exists>y\<in>S. x \<noteq> y)"
  using card_le_Suc0_iff_eq[of S] by auto

lemma count_list_map_distinct:
  "distinct xs \<Longrightarrow> count_list (map f xs) v = card {x \<in> set xs. f x = v}"
proof (induction xs)
  case Nil
  then show ?case by simp
next
  case (Cons a xs)
  have "{x \<in> set (a # xs). f x = v} =
      (if f a = v then insert a {x \<in> set xs. f x = v} else {x \<in> set xs. f x = v})"
    by auto
  with Cons show ?case by auto
qed

lemma sorted_hd_le: "sorted (s::int list) \<Longrightarrow> y \<in> set s \<Longrightarrow> hd s \<le> y"
  by (cases s) auto

lemma sorted_le_last: "sorted (s::int list) \<Longrightarrow> y \<in> set s \<Longrightarrow> y \<le> last s"
  by (induction s) auto

lemma sorted_Min: "sorted (s::int list) \<Longrightarrow> s \<noteq> [] \<Longrightarrow> Min (set s) = hd s"
  by (auto intro!: Min_eqI sorted_hd_le)

lemma sorted_Max: "sorted (s::int list) \<Longrightarrow> s \<noteq> [] \<Longrightarrow> Max (set s) = last s"
  by (auto intro!: Max_eqI sorted_le_last)

text \<open>A sorted list of integers is the interval from its first to its last element
  exactly when it has no repetition and the interval has its length.\<close>

lemma sorted_eq_upto:
  assumes "sorted (s::int list)" "s \<noteq> []"
  shows "s = [hd s..last s] \<longleftrightarrow> distinct s \<and> last s - hd s = int (length s) - 1"
proof
  assume e: "s = [hd s..last s]"
  have d: "distinct [hd s..last s]" by simp
  have "length [hd s..last s] = nat (last s - hd s + 1)" by simp
  with e have l: "length s = nat (last s - hd s + 1)" by simp
  have "hd s \<le> last s" using assms by (simp add: sorted_hd_le)
  with l have "last s - hd s = int (length s) - 1" by simp
  moreover from d e have "distinct s" by simp
  ultimately show "distinct s \<and> last s - hd s = int (length s) - 1" by simp
next
  assume a: "distinct s \<and> last s - hd s = int (length s) - 1"
  have sub: "set s \<subseteq> {hd s..last s}"
    using assms by (auto simp: sorted_hd_le sorted_le_last)
  have "card (set s) = length s" using a by (simp add: distinct_card)
  moreover have "card {hd s..last s} = nat (last s - hd s + 1)" by simp
  ultimately have "card (set s) = card {hd s..last s}" using a by simp
  with sub have "set s = {hd s..last s}" by (simp add: card_subset_eq)
  then have "set s = set [hd s..last s]" by simp
  then show "s = [hd s..last s]"
    using assms a by (metis sorted_distinct_set_unique sorted_upto distinct_upto)
qed

section \<open>Classification against the specification table\<close>

lemma flush_status_iff:
  assumes "cs \<noteq> []"
  shows "(length (remdups (map suit (sort_key card_key cs))) = 1) = spec_is_flush cs"
proof -
  have "length (remdups (map suit (sort_key card_key cs))) = card (suit ` set cs)"
    by (simp add: length_remdups_card_conv)
  moreover have "(card (suit ` set cs) = 1) = spec_is_flush cs"
    unfolding spec_is_flush_def using assms by (intro card_image_1) simp
  ultimately show ?thesis by simp
qed

lemma is_consecutive_spec:
  assumes "length (cards h) = 5"
  shows "is_consecutive h = Inr (spec_is_straight (cards h))"
proof -
  define rs where "rs = map rank (cards h)"
  define s where "s = sort rs"
  have len: "length s = 5" using assms by (simp add: s_def rs_def)
  then have ne: "s \<noteq> []" by auto
  have srt: "sorted s" by (simp add: s_def)
  have ms: "mset s = mset rs" by (simp add: s_def)
  have st: "set s = set rs" by (simp add: s_def)
  have ds: "distinct s = distinct rs" by (simp add: s_def)
  have "(s = [hd s..last s]) = (distinct s \<and> last s - hd s = int (length s) - 1)"
    using srt ne by (rule sorted_eq_upto)
  moreover have "Max (set rs) = last s" using sorted_Max[OF srt ne] st by simp
  moreover have "Min (set rs) = hd s" using sorted_Min[OF srt ne] st by simp
  ultimately have A: "(s = range_py (hd s) (last s + 1)) = (distinct rs \<and> Max (set rs) - Min (set rs) = 4)"
    using len ds by (simp add: range_py_def)
  have B: "(s = [2, 3, 4, 5, 14]) = (mset rs = mset [2, 3, 4, 5, 14])"
  proof
    assume "s = [2, 3, 4, 5, 14]"
    with ms show "mset rs = mset [2, 3, 4, 5, 14]" by simp
  next
    assume m: "mset rs = mset [2, 3, 4, 5, 14]"
    have "sort rs = [2, 3, 4, 5, 14]"
      by (rule properties_for_sort) (simp_all add: m)
    then show "s = [2, 3, 4, 5, 14]" by (simp add: s_def)
  qed
  have "is_consecutive h =
      (if s = [] then Inl IndexError
       else if s = range_py (hd s) (last s + 1) then Inr True
       else if s = [2, 3, 4, 5, 14] then Inr True else Inr False)"
    by (simp add: is_consecutive_def Let_def s_def rs_def)
  also have "\<dots> = Inr (spec_is_straight (cards h))"
    using ne A B by (simp add: spec_is_straight_def Let_def rs_def)
  finally show ?thesis .
qed

lemma count_list_sorted_ranks:
  "count_list (map rank (sort_key card_key cs)) r = spec_count cs r"
proof -
  have "mset (map rank (sort_key card_key cs)) = mset (map rank cs)" by simp
  then show ?thesis unfolding spec_count_def by (metis count_mset)
qed

lemma set_sorted_ranks: "set (map rank (sort_key card_key cs)) = set (map rank cs)"
  by simp

lemma vals_Counter: "map snd (Counter xs) = map (\<lambda>x. int (count_list xs x)) (remdups xs)"
  by (simp add: Counter_def comp_def)

lemma in_vals_iff:
  "n \<in> set (map snd (Counter (map rank (sort_key card_key cs)))) \<longleftrightarrow>
     (\<exists>r \<in> set (map rank cs). int (spec_count cs r) = n)"
  unfolding vals_Counter count_list_sorted_ranks by auto

lemma two_pair_iff:
  "(1 < count_list (map snd (Counter (map rank (sort_key card_key cs)))) 2) \<longleftrightarrow>
     (\<exists>r \<in> set (map rank cs). \<exists>q \<in> set (map rank cs).
        q \<noteq> r \<and> spec_count cs r = 2 \<and> spec_count cs q = 2)"
proof -
  let ?rk = "map rank (sort_key card_key cs)"
  let ?S = "{r \<in> set (map rank cs). spec_count cs r = 2}"
  have "count_list (map snd (Counter ?rk)) 2 = card {x \<in> set (remdups ?rk). int (count_list ?rk x) = 2}"
    unfolding vals_Counter by (rule count_list_map_distinct) simp
  also have "{x \<in> set (remdups ?rk). int (count_list ?rk x) = 2} = ?S"
    unfolding count_list_sorted_ranks by auto
  finally have "(1 < count_list (map snd (Counter ?rk)) 2) = (1 < card ?S)" by simp
  also have "\<dots> = (\<exists>x\<in>?S. \<exists>y\<in>?S. x \<noteq> y)" by (rule card_gt1) simp
  also have "\<dots> = (\<exists>r \<in> set (map rank cs). \<exists>q \<in> set (map rank cs).
        q \<noteq> r \<and> spec_count cs r = 2 \<and> spec_count cs q = 2)" by blast
  finally show ?thesis .
qed

lemma sort_key_Nil_iff: "sort_key f xs = [] \<longleftrightarrow> xs = []"
  by (metis length_sort length_0_conv)

lemma sorted_by_counts_nonempty:
  "cs \<noteq> [] \<Longrightarrow> sort_key f (Counter (map rank (sort_key card_key cs))) \<noteq> []"
  by (simp add: sort_key_Nil_iff Counter_def)

lemma full_house_iff:
  "((\<exists>r\<in>rs. spec_count cs r = 3) \<and> (\<exists>r\<in>rs. spec_count cs r = 2)) =
   (\<exists>r\<in>rs. \<exists>q\<in>rs. q \<noteq> r \<and> spec_count cs r = 3 \<and> spec_count cs q = 2)"
proof
  assume "(\<exists>r\<in>rs. spec_count cs r = 3) \<and> (\<exists>r\<in>rs. spec_count cs r = 2)"
  then obtain r q where r: "r \<in> rs" "spec_count cs r = 3" and q: "q \<in> rs" "spec_count cs q = 2"
    by blast
  then have "q \<noteq> r" by auto
  with r q show "\<exists>r\<in>rs. \<exists>q\<in>rs. q \<noteq> r \<and> spec_count cs r = 3 \<and> spec_count cs q = 2"
    by blast
next
  assume "\<exists>r\<in>rs. \<exists>q\<in>rs. q \<noteq> r \<and> spec_count cs r = 3 \<and> spec_count cs q = 2"
  then show "(\<exists>r\<in>rs. spec_count cs r = 3) \<and> (\<exists>r\<in>rs. spec_count cs r = 2)"
    by blast
qed

lemma if_Inr_pair:
  "(if c then Inr (a, d) else Inr (b, d)) = Inr (if c then a else b, d)"
  by simp

lemma eval_spec:
  assumes "length (cards h) = 5"
  shows "eval h = Inr (spec_category (cards h),
     fst (hd (sort_key (\<lambda>tup. (- snd tup, - fst tup))
       (Counter (map rank (sort_key card_key (cards h)))))))"
proof -
  from assms have ne: "cards h \<noteq> []" by auto
  define rs where "rs = set (map rank (cards h))"
  define F where "F = spec_is_flush (cards h)"
  define S where "S = spec_is_straight (cards h)"
  define sbc where "sbc = sort_key (\<lambda>tup. (- snd tup, - fst tup))
       (Counter (map rank (sort_key card_key (cards h))))"
  define vals where "vals = map snd (Counter (map rank (sort_key card_key (cards h))))"
  define C4 where "C4 = (\<exists>r\<in>rs. spec_count (cards h) r = 4)"
  define C3 where "C3 = (\<exists>r\<in>rs. spec_count (cards h) r = 3)"
  define C2 where "C2 = (\<exists>r\<in>rs. spec_count (cards h) r = 2)"
  define FH where "FH = (\<exists>r\<in>rs. \<exists>q\<in>rs. q \<noteq> r \<and> spec_count (cards h) r = 3 \<and> spec_count (cards h) q = 2)"
  define TP where "TP = (\<exists>r\<in>rs. \<exists>q\<in>rs. q \<noteq> r \<and> spec_count (cards h) r = 2 \<and> spec_count (cards h) q = 2)"
  have c: "is_consecutive h = Inr S"
    unfolding S_def using assms by (rule is_consecutive_spec)
  have f: "(length (remdups (map suit (sort_key card_key (cards h)))) = 1) = F"
    unfolding F_def using ne by (rule flush_status_iff)
  have n: "(sbc = []) = False"
    unfolding sbc_def using sorted_by_counts_nonempty[OF ne] by simp
  have v4: "(4 \<in> set vals) = C4"
    unfolding vals_def C4_def rs_def in_vals_iff by auto
  have v3: "(3 \<in> set vals) = C3"
    unfolding vals_def C3_def rs_def in_vals_iff by auto
  have v2: "(2 \<in> set vals) = C2"
    unfolding vals_def C2_def rs_def in_vals_iff by auto
  have tp: "(1 < count_list vals 2) = TP"
    unfolding vals_def TP_def rs_def by (rule two_pair_iff)
  have fh: "(C3 \<and> C2) = FH"
    unfolding C3_def C2_def FH_def by (rule full_house_iff)
  have E: "eval h =
     (if S \<and> F then Inr (''straight flush'', fst (hd sbc))
      else if C4 then Inr (''four of a kind'', fst (hd sbc))
      else if FH then Inr (''full house'', fst (hd sbc))
      else if F then Inr (''flush'', fst (hd sbc))
      else if S then Inr (''straight'', fst (hd sbc))
      else if C3 then Inr (''three of a kind'', fst (hd sbc))
      else if TP then Inr (''two pair'', fst (hd sbc))
      else if C2 then Inr (''pair'', fst (hd sbc))
      else Inr (''high card'', fst (hd sbc)))"
    unfolding eval_def Let_def c f sum.case
    unfolding sbc_def[symmetric] vals_def[symmetric]
    unfolding n if_False v4 v3 v2 tp fh
    by (rule refl)
  have Sp: "spec_category (cards h) =
     (if S \<and> F then ''straight flush''
      else if C4 then ''four of a kind''
      else if FH then ''full house''
      else if F then ''flush''
      else if S then ''straight''
      else if C3 then ''three of a kind''
      else if TP then ''two pair''
      else if C2 then ''pair''
      else ''high card'')"
    unfolding spec_category_def Let_def rs_def[symmetric]
    unfolding S_def F_def C4_def C3_def C2_def FH_def TP_def
    by (rule refl)
  show ?thesis
    unfolding E Sp sbc_def[symmetric] if_Inr_pair by (rule refl)
qed

section \<open>Independence of the order of the cards\<close>

lemma Counter_mset:
  assumes "mset xs = mset ys"
  shows "mset (Counter xs) = mset (Counter ys)"
proof -
  have c: "count_list xs = count_list ys"
    using assms by (metis count_mset ext)
  have "set xs = set ys" using assms by (rule mset_eq_setD)
  then have "mset (remdups xs) = mset (remdups ys)"
    by (simp add: set_eq_iff_mset_remdups_eq)
  then have "image_mset (\<lambda>x. (x, int (count_list ys x))) (mset (remdups xs)) = 
      image_mset (\<lambda>x. (x, int (count_list ys x))) (mset (remdups ys))" by simp
  then show ?thesis unfolding Counter_def c by simp
qed

lemma sort_key_mset_inj:
  assumes "mset xs = mset ys" "inj_on f (set xs)"
  shows "sort_key f xs = sort_key f ys"
  by (rule sort_key_inj_key_eq) (simp_all add: assms)

lemma count_key_inj: "inj_on (\<lambda>tup::int \<times> int. (- snd tup, - fst tup)) A"
  by (auto simp: inj_on_def)

lemma is_consecutive_mset:
  assumes "mset (cards h) = mset (cards h')"
  shows "is_consecutive h = is_consecutive h'"
proof -
  have "mset (map rank (cards h)) = mset (map rank (cards h'))"
    using assms by (metis mset_map)
  then have "sort (map rank (cards h)) = sort (map rank (cards h'))"
    by (metis properties_for_sort sorted_sort mset_sort)
  then show ?thesis by (simp add: is_consecutive_def)
qed

lemma eval_mset:
  assumes "mset (cards h) = mset (cards h')"
  shows "eval h = eval h'"
proof -
  have s: "mset (sort_key card_key (cards h)) = mset (sort_key card_key (cards h'))"
    using assms by simp
  then have r: "mset (map rank (sort_key card_key (cards h))) =
      mset (map rank (sort_key card_key (cards h')))"
    by (metis mset_map)
  have c: "mset (Counter (map rank (sort_key card_key (cards h)))) =
      mset (Counter (map rank (sort_key card_key (cards h'))))"
    using r by (rule Counter_mset)
  have 1: "sort_key (\<lambda>tup. (- snd tup, - fst tup)) (Counter (map rank (sort_key card_key (cards h)))) =
      sort_key (\<lambda>tup. (- snd tup, - fst tup)) (Counter (map rank (sort_key card_key (cards h'))))"
    using c count_key_inj by (rule sort_key_mset_inj)
  have v: "mset (map snd (Counter (map rank (sort_key card_key (cards h))))) =
      mset (map snd (Counter (map rank (sort_key card_key (cards h')))))"
    using c by (metis mset_map)
  have 2: "set (map snd (Counter (map rank (sort_key card_key (cards h))))) =
      set (map snd (Counter (map rank (sort_key card_key (cards h')))))"
    using v by (rule mset_eq_setD)
  have 3: "count_list (map snd (Counter (map rank (sort_key card_key (cards h))))) =
      count_list (map snd (Counter (map rank (sort_key card_key (cards h')))))"
    using v by (metis count_mset ext)
  have "set (cards h) = set (cards h')" using assms by (rule mset_eq_setD)
  then have "card (suit ` set (cards h)) = card (suit ` set (cards h'))" by simp
  then have 4: "length (remdups (map suit (sort_key card_key (cards h)))) =
      length (remdups (map suit (sort_key card_key (cards h'))))"
    by (simp add: length_remdups_card_conv)
  show ?thesis
    unfolding eval_def Let_def is_consecutive_mset[OF assms] 1 2 3 4 by (rule refl)
qed

lemma to_cards_Inr_iff: "to_cards xs = Inr cs \<longleftrightarrow> map to_card xs = map Inr cs"
proof (induction xs arbitrary: cs)
  case Nil
  then show ?case by auto
next
  case (Cons x xs)
  show ?case
  proof (cases "to_card x")
    case (Inl e)
    then show ?thesis by (auto simp: Cons_eq_map_conv)
  next
    case c: (Inr c)
    show ?thesis
    proof (cases "to_cards xs")
      case (Inl e)
      with Cons.IH have "\<And>zs. map to_card xs \<noteq> map Inr zs" by simp
      with c Inl show ?thesis by (auto simp: Cons_eq_map_conv)
    next
      case (Inr zs)
      with Cons.IH have "\<And>ws. (map to_card xs = map Inr ws) = (zs = ws)" by simp
      with c Inr show ?thesis by (auto simp: Cons_eq_map_conv)
    qed
  qed
qed

lemma to_cards_perm:
  assumes "to_cards xs = Inr cs" "mset ys = mset xs"
  shows "\<exists>cs'. to_cards ys = Inr cs' \<and> mset cs' = mset cs"
proof -
  from assms(1) have m: "map to_card xs = map Inr cs" by (simp add: to_cards_Inr_iff)
  define cs' where "cs' = map (projr \<circ> to_card) ys"
  have "set ys = set xs" using assms(2) by (rule mset_eq_setD)
  then have "\<forall>y\<in>set ys. to_card y \<in> set (map to_card xs)" by simp
  then have "\<forall>y\<in>set ys. \<exists>c. to_card y = Inr c" unfolding m by auto
  then have "map to_card ys = map Inr cs'" unfolding cs'_def by auto
  then have 1: "to_cards ys = Inr cs'" by (simp add: to_cards_Inr_iff)
  have "mset cs' = image_mset projr (mset (map to_card ys))" by (simp add: cs'_def multiset.map_comp)
  also have "mset (map to_card ys) = mset (map to_card xs)" using assms(2) by (metis mset_map)
  also have "image_mset projr (mset (map to_card xs)) = mset cs" unfolding m by (simp add: multiset.map_comp comp_def)
  finally show ?thesis using 1 by blast
qed

lemma Hand_init_perm:
  assumes "Hand_init (Seq xs) = Inr h" "mset ys = mset xs"
  shows "\<exists>h'. Hand_init (Seq ys) = Inr h' \<and> mset (cards h') = mset (cards h)"
proof -
  from assms(1) have a: "to_cards xs = Inr (cards h)" "length (cards h) = 5" "distinct (cards h)"
    by (simp_all add: Hand_init_Inr)
  from to_cards_perm[OF a(1) assms(2)] obtain cs' where
    c: "to_cards ys = Inr cs'" "mset cs' = mset (cards h)" by blast
  have "length cs' = 5" using c(2) a(2) by (metis mset_eq_length)
  moreover have "distinct cs'" using c(2) a(3) by (metis mset_eq_imp_distinct_iff)
  ultimately have "Hand_init (Seq ys) = Inr \<lparr>cards = cs'\<rparr>" using c(1)
    by (simp add: Hand_init_Inr)
  with c(2) show ?thesis by simp
qed

lemma card_key_le:
  "card_key c \<le> card_key d \<longleftrightarrow>
     rank c > rank d \<or> (rank c = rank d \<and> (of_char (suit c) :: nat) \<ge> of_char (suit d))"
  by (auto simp: card_key_def less_eq_prod_def)

lemma canonical_iff_sorted: "canonical cs = sorted (map card_key cs)"
  by (simp add: canonical_def sorted_map card_key_le)

lemma spec_category_in_hierarchy: "spec_category cs \<in> fst ` set hierarchy"
  by (simp add: spec_category_def hierarchy_def Let_def)

lemma determining_in_ranks:
  assumes "cs \<noteq> []"
  shows "fst (hd (sort_key f (Counter (map rank (sort_key card_key cs))))) \<in> set (map rank cs)"
proof -
  let ?sbc = "sort_key f (Counter (map rank (sort_key card_key cs)))"
  have "?sbc \<noteq> []" using assms by (rule sorted_by_counts_nonempty)
  then have "hd ?sbc \<in> set ?sbc" by (rule hd_in_set)
  then have "hd ?sbc \<in> set (Counter (map rank (sort_key card_key cs)))" by simp
  then have "fst (hd ?sbc) \<in> set (map rank (sort_key card_key cs))"
    by (auto simp: Counter_def)
  then show ?thesis by simp
qed


section \<open>Splitting a string into tokens\<close>

lemma split_from_token:
  "\<forall>c\<in>set t. \<not> isspace c \<Longrightarrow> split_from w (t @ r) = split_from (w @ t) r"
  by (induction t arbitrary: w) auto

lemma split_join:
  assumes "\<forall>t\<in>set ts. t \<noteq> [] \<and> (\<forall>c\<in>set t. \<not> isspace c)"
  shows "split (join '' '' ts) = ts"
  using assms
proof (induction "'' ''" ts rule: join.induct)
  case 1
  then show ?case by (simp add: split_def)
next
  case (2 x)
  then have "split_from [] (x @ []) = split_from ([] @ x) []"
    by (intro split_from_token) simp
  with 2 show ?case by (simp add: split_def)
next
  case (3 x y ys)
  have x: "x \<noteq> []" "\<forall>c\<in>set x. \<not> isspace c" using 3(2) by auto
  have "split_from [] (x @ '' '' @ join '' '' (y # ys)) = split_from ([] @ x) ('' '' @ join '' '' (y # ys))"
    using x(2) by (rule split_from_token)
  also have "\<dots> = x # split_from [] (join '' '' (y # ys))"
    using x(1) by (simp add: isspace_def)
  also have "split_from [] (join '' '' (y # ys)) = y # ys"
    using 3 by (simp add: split_def)
  finally show ?case by (simp add: split_def)
qed

section \<open>The cards of the argument and the display\<close>

lemma to_cards_stands_for: "to_cards xs = Inr cs \<longleftrightarrow> list_all2 stands_for xs cs"
proof -
  have "\<And>x c. (to_card x = Inr c) = stands_for x c"
    by (case_tac x) auto
  then have "list_all2 (\<lambda>x c. to_card x = Inr c) xs cs = list_all2 stands_for xs cs"
    by simp
  moreover have "(map to_card xs = map Inr cs) = list_all2 (\<lambda>x c. to_card x = Inr c) xs cs"
    by (auto simp: list_all2_conv_all_nth list_eq_iff_nth_eq)
  ultimately show ?thesis by (simp add: to_cards_Inr_iff)
qed

lemma Card_init_valid: "Card_init t = Inr c \<Longrightarrow> valid_card c"
  by (simp add: valid_card_def Card_init_Inr)

lemma stands_for_valid:
  "list_all2 stands_for xs cs \<Longrightarrow> \<forall>x\<in>set xs. valid_item x \<Longrightarrow> \<forall>c\<in>set cs. valid_card c"
proof (induction rule: list_all2_induct)
  case Nil
  then show ?case by simp
next
  case (Cons x xs c cs)
  have "valid_card c"
  proof (cases x)
    case (CardObj d)
    with Cons show ?thesis by simp
  next
    case (Token t)
    with Cons show ?thesis by (simp add: Card_init_valid)
  qed
  with Cons show ?case by simp
qed

lemma card_key_inj:
  assumes "\<forall>c\<in>set cs. valid_card c"
  shows "inj_on card_key (set cs)"
proof (rule inj_onI)
  fix c d assume c: "c \<in> set cs" and d: "d \<in> set cs" and k: "card_key c = card_key d"
  from k have "rank c = rank d" "suit c = suit d"
    by (simp_all add: card_key_def)
  then have "Card_eq c d" by (simp add: Card_eq_def)
  with assms c d show "c = d" by (auto intro: valid_card_eq)
qed

lemma canonical_unique:
  assumes "\<forall>c\<in>set cs. valid_card c" "canonical s" "mset s = mset cs"
  shows "sort_key card_key cs = s"
proof (rule sort_key_inj_key_eq)
  show "mset cs = mset s" using assms(3) by simp
  show "inj_on card_key (set cs)" using assms(1) by (rule card_key_inj)
  show "sorted (map card_key s)" using assms(2) by (simp add: canonical_iff_sorted)
qed

lemma Card_init_no_space:
  assumes "Card_init t = Inr c"
  shows "t \<noteq> [] \<and> (\<forall>ch\<in>set t. \<not> isspace ch)"
proof -
  from assms have ne: "t \<noteq> []" and r: "map_of RANK_NAME_TO_RANK (butlast t) \<noteq> None"
    and s: "last t \<in> set ''hdcs''"
    by (simp_all add: Card_init_Inr)
  have "\<forall>ch\<in>set (butlast t). \<not> isspace ch"
    using r unfolding rank_text_iff by (auto simp: isspace_def)
  moreover have "\<not> isspace (last t)" using s by (auto simp: isspace_def)
  moreover have "set t = set (butlast t) \<union> {last t}"
    using ne by (metis append_butlast_last_id set_append list.simps(15) empty_set)
  ultimately show ?thesis using ne by auto
qed

lemma split_from_blank:
  "\<forall>ch\<in>set g. isspace ch \<Longrightarrow> split_from [] (g @ r) = split_from [] r"
  by (induction g) auto

lemma split_from_gap:
  "w \<noteq> [] \<Longrightarrow> g \<noteq> [] \<Longrightarrow> \<forall>ch\<in>set g. isspace ch \<Longrightarrow>
     split_from w (g @ r) = w # split_from [] r"
  by (cases g) (auto simp: split_from_blank)

lemma split_from_end:
  "w \<noteq> [] \<Longrightarrow> \<forall>ch\<in>set g. isspace ch \<Longrightarrow> split_from w g = [w]"
  using split_from_gap[of w g "[]"] by (cases g) auto

lemma whitespace_run_iff: "whitespace_run g = (\<forall>ch\<in>set g. isspace ch)"
  by (auto simp: whitespace_run_def isspace_def)

lemma split_spaced:
  assumes "length gs = length ts"
    and "\<forall>t\<in>set ts. t \<noteq> [] \<and> (\<forall>ch\<in>set t. \<not> isspace ch)"
    and "\<forall>g\<in>set gs. whitespace_run g"
    and "\<forall>g\<in>set (butlast gs). g \<noteq> []"
  shows "split_from [] (spaced ts gs) = ts"
  using assms
proof (induction ts gs rule: list_induct2')
  case (4 t ts g gs)
  have t: "t \<noteq> []" "\<forall>ch\<in>set t. \<not> isspace ch" using 4(3) by auto
  have g: "\<forall>ch\<in>set g. isspace ch" using 4(4) by (simp add: whitespace_run_iff)
  have a: "split_from [] (t @ g @ spaced ts gs) = split_from ([] @ t) (g @ spaced ts gs)"
    using t(2) by (rule split_from_token)
  show ?case
  proof (cases ts)
    case Nil
    then have "spaced ts gs = []" by simp
    with a t(1) g Nil show ?thesis by (simp add: split_from_end)
  next
    case (Cons u us)
    with 4(2) have "gs \<noteq> []" by auto
    with 4(5) have "g \<noteq> []" by simp
    then have "split_from t (g @ spaced ts gs) = t # split_from [] (spaced ts gs)"
      using t(1) g by (simp add: split_from_gap)
    moreover have "split_from [] (spaced ts gs) = ts"
      using 4 \<open>gs \<noteq> []\<close> by simp
    ultimately show ?thesis using a by simp
  qed
qed simp_all

lemma Hand_repr_mset:
  assumes "mset (cards h') = mset (cards h)" "\<forall>c\<in>set (cards h). valid_card c"
  shows "Hand_repr h' = Hand_repr h"
proof -
  have "set (cards h') = set (cards h)" using assms(1) by (rule mset_eq_setD)
  with assms(2) have "inj_on card_key (set (cards h'))" by (simp add: card_key_inj)
  with assms(1) have "sort_key card_key (cards h') = sort_key card_key (cards h)"
    by (rule sort_key_mset_inj)
  then show ?thesis by (simp add: Hand_repr_def)
qed

section \<open>Comparison\<close>

text \<open>The first step of \<^verbatim>\<open>__lt__\<close> loads a name that the module does not bind.\<close>

lemma Hand_lt_raises: "Hand_lt a b = Inl (NameError ''hierarchy'')"
  by (simp add: Hand_lt_def load_global_def module_globals_def)

section \<open>The doctests that do not compare hands\<close>

text \<open>The examples of the docstrings of \<^verbatim>\<open>Card.__init__\<close>, \<^verbatim>\<open>Hand.__init__\<close> and
  \<^verbatim>\<open>Hand.__repr__\<close>, evaluated on the model.\<close>

lemma Card_doctests:
  "Card_init ''Ks'' = Inr \<lparr>name = ''Ks'', rank = 13, suit = CHR ''s''\<rparr>"
  "map_sum id rank (Card_init ''Ac'') = Inr 14"
  "map_sum id rank (Card_init ''10d'') = Inr 10"
  by code_simp+

lemma Hand_doctests:
  "map name (cards (hand ''As Ks Qs Js 10s'')) = [''As'', ''Ks'', ''Qs'', ''Js'', ''10s'']"
  "Hand_repr (hand ''8d 7s 7h 7c 7d'') = ''<Hand 8d 7s 7h 7d 7c>''"
  by code_simp+

section \<open>The claims\<close>

text \<open>
  Claim C1. For a hand that \<^verbatim>\<open>Hand(..)\<close> has constructed, the category \<open>eval\<close> returns is
  the one the specification's table gives, its nine rows tried in priority order; in
  particular a hand that is both a straight (consecutive ranks, or the wheel) and a
  flush is a ``straight flush'', never a plain ``flush'' or ``straight''.
\<close>

theorem eval_priority_order:
  assumes "Hand_init arg = Inr h"
  shows "map_sum id fst (eval h) = Inr (spec_category (cards h)) \<and>
         (spec_is_straight (cards h) \<and> spec_is_flush (cards h) \<longrightarrow>
            map_sum id fst (eval h) = Inr ''straight flush'')"
proof -
  have len: "length (cards h) = 5" using assms by (rule Hand_init_length)
  have 1: "map_sum id fst (eval h) = Inr (spec_category (cards h))"
    by (simp add: eval_spec[OF len])
  have 2: "spec_is_straight (cards h) \<and> spec_is_flush (cards h) \<Longrightarrow>
      spec_category (cards h) = ''straight flush''"
    by (simp add: spec_category_def)
  from 1 2 show ?thesis by simp
qed

theorem eval_priority_order_witness:
  "Hand_init (Str ''6s 5s 4s 3s  2s'') = Inr (hand ''6s 5s 4s 3s  2s'') \<and>
   spec_is_straight (cards (hand ''6s 5s 4s 3s  2s'')) \<and>
   spec_is_flush (cards (hand ''6s 5s 4s 3s  2s'')) \<and>
   map_sum id fst (eval (hand ''6s 5s 4s 3s  2s'')) = Inr ''straight flush''"
proof -
  have h: "Hand_init (Str ''6s 5s 4s 3s  2s'') = Inr (hand ''6s 5s 4s 3s  2s'')"
    by code_simp
  have s: "spec_is_straight (cards (hand ''6s 5s 4s 3s  2s''))"
    by code_simp
  have f: "spec_is_flush (cards (hand ''6s 5s 4s 3s  2s''))"
    by code_simp
  from eval_priority_order[OF h] s f h show ?thesis by blast
qed

text \<open>
  Claim C9. On a constructed hand \<open>eval\<close> returns a pair and raises nothing: neither
  \<^verbatim>\<open>rank_list[0]\<close>, \<^verbatim>\<open>rank_list[-1]\<close> in \<open>is_consecutive\<close> nor \<^verbatim>\<open>sorted_by_counts[0]\<close>
  is out of range. The category is one of the nine of the hierarchy table and the
  tie-break value is the rank of one of the cards.
\<close>

theorem eval_total:
  assumes "Hand_init arg = Inr h"
  shows "(\<exists>b. is_consecutive h = Inr b) \<and>
         (\<exists>c d. eval h = Inr (c, d) \<and> c \<in> fst ` set hierarchy \<and> d \<in> set (map rank (cards h)))"
proof -
  have len: "length (cards h) = 5" using assms by (rule Hand_init_length)
  then have ne: "cards h \<noteq> []" by auto
  have "\<exists>b. is_consecutive h = Inr b"
    using is_consecutive_spec[OF len] by blast
  moreover have "\<exists>c d. eval h = Inr (c, d) \<and> c \<in> fst ` set hierarchy \<and> d \<in> set (map rank (cards h))"
    using eval_spec[OF len] spec_category_in_hierarchy[of "cards h"] determining_in_ranks[OF ne]
    by blast
  ultimately show ?thesis by blast
qed

theorem eval_total_witness:
  "Hand_init (Str ''5c 4c 3d 2h Ah'') = Inr (hand ''5c 4c 3d 2h Ah'') \<and>
   (\<exists>b. is_consecutive (hand ''5c 4c 3d 2h Ah'') = Inr b) \<and>
   (\<exists>c d. eval (hand ''5c 4c 3d 2h Ah'') = Inr (c, d) \<and> c \<in> fst ` set hierarchy \<and>
      d \<in> set (map rank (cards (hand ''5c 4c 3d 2h Ah''))))"
proof -
  have h: "Hand_init (Str ''5c 4c 3d 2h Ah'') = Inr (hand ''5c 4c 3d 2h Ah'')"
    by code_simp
  from eval_total[OF h] h show ?thesis by blast
qed

text \<open>
  Claim C6. If a sequence of cards or tokens constructs a hand, every rearrangement of
  it constructs a hand too, and \<open>eval\<close> returns the same pair on both.
\<close>

theorem eval_order_invariant:
  assumes "Hand_init (Seq xs) = Inr h" "mset ys = mset xs"
  shows "\<exists>h'. Hand_init (Seq ys) = Inr h' \<and> eval h' = eval h"
proof -
  from Hand_init_perm[OF assms] obtain h' where
    h': "Hand_init (Seq ys) = Inr h'" "mset (cards h') = mset (cards h)" by blast
  from h'(2) have "eval h' = eval h" by (rule eval_mset)
  with h'(1) show ?thesis by blast
qed

theorem eval_order_invariant_witness:
  "Hand_init (Seq (map Token [''2d'', ''3d'', ''4d'', ''5d'', ''6d''])) =
     Inr (projr (Hand_init (Seq (map Token [''2d'', ''3d'', ''4d'', ''5d'', ''6d''])))) \<and>
   mset (map Token [''6d'', ''5d'', ''4d'', ''3d'', ''2d'']) =
     mset (map Token [''2d'', ''3d'', ''4d'', ''5d'', ''6d'']) \<and>
   (\<exists>h'. Hand_init (Seq (map Token [''6d'', ''5d'', ''4d'', ''3d'', ''2d''])) = Inr h' \<and>
     eval h' = eval (projr (Hand_init (Seq (map Token [''2d'', ''3d'', ''4d'', ''5d'', ''6d''])))))"
proof -
  have h: "Hand_init (Seq (map Token [''2d'', ''3d'', ''4d'', ''5d'', ''6d''])) =
     Inr (projr (Hand_init (Seq (map Token [''2d'', ''3d'', ''4d'', ''5d'', ''6d'']))))"
    by code_simp
  have m: "mset (map Token [''6d'', ''5d'', ''4d'', ''3d'', ''2d'']) =
     mset (map Token [''2d'', ''3d'', ''4d'', ''5d'', ''6d''])"
    by (simp add: add_mset_commute)
  from eval_order_invariant[OF h m] h m show ?thesis by blast
qed

text \<open>
  Claim C5 says that the stored card sequence is in canonical order. The constructor
  stores the cards as supplied: \<^verbatim>\<open>Hand("2d 3d 4d 5d 6d")\<close>, the hand of the doctest of
  \<^verbatim>\<open>__eq__\<close>, holds its cards in ascending order.
\<close>

theorem stored_order_not_canonical:
  "Hand_init (Str ''2d 3d 4d 5d 6d'') = Inr (hand ''2d 3d 4d 5d 6d'') \<and>
   map name (cards (hand ''2d 3d 4d 5d 6d'')) = [''2d'', ''3d'', ''4d'', ''5d'', ''6d''] \<and>
   \<not> canonical (cards (hand ''2d 3d 4d 5d 6d''))"
  by code_simp

text \<open>
  Claim C5, amended. A constructed hand stores the supplied sequence in the order
  supplied: position by position, the supplied card itself or the card parsed from
  the supplied token. The canonical order (descending rank, within equal ranks
  descending suit character code) is imposed by the display: when the cards given as
  cards are ones \<^verbatim>\<open>Card(..)\<close> has produced, \<^verbatim>\<open>__repr__\<close> lists the stored cards in their
  one canonical arrangement, and for every order in which the five are supplied the
  display and \<open>eval\<close> are the same.
\<close>

theorem stored_cards_as_supplied:
  assumes "Hand_init (Seq xs) = Inr h" and "\<forall>x\<in>set xs. valid_item x"
  shows "list_all2 stands_for xs (cards h) \<and>
         (\<exists>s. canonical s \<and> mset s = mset (cards h) \<and>
              Hand_repr h = ''<Hand '' @ join '' '' (map name s) @ ''>'') \<and>
         (\<forall>s. canonical s \<and> mset s = mset (cards h) \<longrightarrow>
              Hand_repr h = ''<Hand '' @ join '' '' (map name s) @ ''>'') \<and>
         (\<forall>ys h'. mset ys = mset xs \<and> Hand_init (Seq ys) = Inr h' \<longrightarrow>
              Hand_repr h' = Hand_repr h \<and> eval h' = eval h)"
proof -
  from assms(1) have tc: "to_cards xs = Inr (cards h)"
    by (simp add: Hand_init_Inr)
  then have sf: "list_all2 stands_for xs (cards h)"
    by (simp add: to_cards_stands_for)
  from sf assms(2) have v: "\<forall>c\<in>set (cards h). valid_card c"
    by (rule stands_for_valid)
  have u: "Hand_repr h = ''<Hand '' @ join '' '' (map name s) @ ''>''"
    if "canonical s \<and> mset s = mset (cards h)" for s
  proof -
    from that have "sort_key card_key (cards h) = s"
      using v by (simp add: canonical_unique)
    then show ?thesis by (simp add: Hand_repr_def)
  qed
  have "canonical (sort_key card_key (cards h)) \<and>
      mset (sort_key card_key (cards h)) = mset (cards h)"
    by (simp add: canonical_iff_sorted)
  with u have e: "\<exists>s. canonical s \<and> mset s = mset (cards h) \<and>
      Hand_repr h = ''<Hand '' @ join '' '' (map name s) @ ''>''"
    by blast
  have p: "Hand_repr h' = Hand_repr h \<and> eval h' = eval h"
    if "mset ys = mset xs \<and> Hand_init (Seq ys) = Inr h'" for ys h'
  proof -
    from that have ty: "to_cards ys = Inr (cards h')" by (simp add: Hand_init_Inr)
    from to_cards_perm[OF tc] that obtain cs' where
      "to_cards ys = Inr cs'" "mset cs' = mset (cards h)" by blast
    with ty have m: "mset (cards h') = mset (cards h)" by simp
    from m v have "Hand_repr h' = Hand_repr h" by (rule Hand_repr_mset)
    moreover from m have "eval h' = eval h" by (rule eval_mset)
    ultimately show ?thesis by simp
  qed
  from sf e u p show ?thesis by blast
qed

theorem stored_cards_as_supplied_witness:
  "Hand_init (Seq [Token ''2d'', CardObj \<lparr>name = ''3d'', rank = 3, suit = CHR ''d''\<rparr>,
                   Token ''4d'', Token ''5d'', Token ''6d'']) = Inr (hand ''2d 3d 4d 5d 6d'') \<and>
   list_all valid_item [Token ''2d'', CardObj \<lparr>name = ''3d'', rank = 3, suit = CHR ''d''\<rparr>,
                   Token ''4d'', Token ''5d'', Token ''6d''] \<and>
   list_all2 stands_for [Token ''2d'', CardObj \<lparr>name = ''3d'', rank = 3, suit = CHR ''d''\<rparr>,
                   Token ''4d'', Token ''5d'', Token ''6d''] (cards (hand ''2d 3d 4d 5d 6d'')) \<and>
   map name (cards (hand ''2d 3d 4d 5d 6d'')) = [''2d'', ''3d'', ''4d'', ''5d'', ''6d''] \<and>
   Hand_repr (hand ''2d 3d 4d 5d 6d'') = ''<Hand 6d 5d 4d 3d 2d>'' \<and>
   Hand_init (Seq [Token ''5d'', Token ''6d'', Token ''2d'', Token ''4d'',
                   CardObj \<lparr>name = ''3d'', rank = 3, suit = CHR ''d''\<rparr>]) = Inr (hand ''5d 6d 2d 4d 3d'') \<and>
   map name (cards (hand ''5d 6d 2d 4d 3d'')) = [''5d'', ''6d'', ''2d'', ''4d'', ''3d''] \<and>
   Hand_repr (hand ''5d 6d 2d 4d 3d'') = Hand_repr (hand ''2d 3d 4d 5d 6d'') \<and>
   eval (hand ''5d 6d 2d 4d 3d'') = eval (hand ''2d 3d 4d 5d 6d'')"
proof -
  let ?xs = "[Token ''2d'', CardObj \<lparr>name = ''3d'', rank = 3, suit = CHR ''d''\<rparr>,
              Token ''4d'', Token ''5d'', Token ''6d'']"
  let ?ys = "[Token ''5d'', Token ''6d'', Token ''2d'', Token ''4d'',
              CardObj \<lparr>name = ''3d'', rank = 3, suit = CHR ''d''\<rparr>]"
  let ?h = "hand ''2d 3d 4d 5d 6d''"
  let ?h' = "hand ''5d 6d 2d 4d 3d''"
  let ?s = "sort_key card_key (cards ?h)"
  have h: "Hand_init (Seq ?xs) = Inr ?h" by code_simp
  have v: "list_all valid_item ?xs" by code_simp
  then have v': "\<forall>x\<in>set ?xs. valid_item x" by (simp only: list_all_iff)
  note T = stored_cards_as_supplied[OF h v']
  from T have a: "list_all2 stands_for ?xs (cards ?h)" by blast
  have n: "map name (cards ?h) = [''2d'', ''3d'', ''4d'', ''5d'', ''6d'']" by code_simp
  have c: "canonical ?s" by code_simp
  have "mset ?s = mset (cards ?h)" by simp
  with T c have "Hand_repr ?h = ''<Hand '' @ join '' '' (map name ?s) @ ''>''" by blast
  moreover have "''<Hand '' @ join '' '' (map name ?s) @ ''>'' = ''<Hand 6d 5d 4d 3d 2d>''"
    by code_simp
  ultimately have r: "Hand_repr ?h = ''<Hand 6d 5d 4d 3d 2d>''" by (rule trans)
  have m: "mset ?ys = mset ?xs" by (simp add: add_mset_commute)
  have hy: "Hand_init (Seq ?ys) = Inr ?h'" by code_simp
  have n': "map name (cards ?h') = [''5d'', ''6d'', ''2d'', ''4d'', ''3d'']" by code_simp
  from T m hy have p: "Hand_repr ?h' = Hand_repr ?h \<and> eval ?h' = eval ?h" by blast
  from h v a n r hy n' p show ?thesis by blast
qed



text \<open>
  Claim C10. Let \<open>cs\<close> be five distinct cards. The constructor returns the hand holding
  exactly \<open>cs\<close> from the sequence of these cards, from every sequence whose elements
  stand for them position by position, cards and tokens mixed, and from every string
  of the five tokens that parse to them, separated by runs of whitespace of any
  length (with whitespace allowed before the first and after the last token). All
  three are the same hand and evaluate alike.
\<close>

theorem Hand_init_string_and_mixed:
  assumes "length cs = 5" "distinct cs"
  shows "Hand_init (Seq (map CardObj cs)) = Inr \<lparr>cards = cs\<rparr> \<and>
     (list_all2 stands_for xs cs \<longrightarrow>
        Hand_init (Seq xs) = Inr \<lparr>cards = cs\<rparr> \<and>
        map_sum id eval (Hand_init (Seq xs)) =
          map_sum id eval (Hand_init (Seq (map CardObj cs)))) \<and>
     (list_all2 (\<lambda>t c. Card_init t = Inr c) ts cs \<and> length gs = length ts \<and>
      whitespace_run lead \<and> (\<forall>g\<in>set gs. whitespace_run g) \<and>
      (\<forall>g\<in>set (butlast gs). g \<noteq> []) \<longrightarrow>
        Hand_init (Str (lead @ spaced ts gs)) = Inr \<lparr>cards = cs\<rparr> \<and>
        map_sum id eval (Hand_init (Str (lead @ spaced ts gs))) =
          map_sum id eval (Hand_init (Seq (map CardObj cs))))"
proof -
  have 1: "Hand_init (Seq (map CardObj cs)) = Inr \<lparr>cards = cs\<rparr>"
    using assms by (simp add: Hand_init_Inr to_cards_CardObj)
  have 2: "Hand_init (Seq xs) = Inr \<lparr>cards = cs\<rparr>" if "list_all2 stands_for xs cs"
    using that assms by (simp add: Hand_init_Inr to_cards_stands_for)
  have 3: "Hand_init (Str (lead @ spaced ts gs)) = Inr \<lparr>cards = cs\<rparr>"
    if h: "list_all2 (\<lambda>t c. Card_init t = Inr c) ts cs \<and> length gs = length ts \<and>
      whitespace_run lead \<and> (\<forall>g\<in>set gs. whitespace_run g) \<and>
      (\<forall>g\<in>set (butlast gs). g \<noteq> [])"
  proof -
    have "\<forall>t\<in>set ts. \<exists>c. Card_init t = Inr c"
      using h by (auto simp: list_all2_conv_all_nth in_set_conv_nth)
    then have tok: "\<forall>t\<in>set ts. t \<noteq> [] \<and> (\<forall>ch\<in>set t. \<not> isspace ch)"
      using Card_init_no_space by blast
    have "split (lead @ spaced ts gs) = split_from [] (spaced ts gs)"
      using h by (simp add: split_def split_from_blank whitespace_run_iff)
    also have "\<dots> = ts"
      using h tok by (intro split_spaced) simp_all
    finally have sp: "split (lead @ spaced ts gs) = ts" .
    have "list_all2 stands_for (map Token ts) cs"
      using h by (simp add: list_all2_map1)
    then have "to_cards (map Token ts) = Inr cs" by (simp add: to_cards_stands_for)
    with sp assms show ?thesis by (simp add: Hand_init_Inr)
  qed
  from 1 2 3 show ?thesis by simp
qed

theorem Hand_init_string_and_mixed_witness:
  "length doctest_cards = 5 \<and> distinct doctest_cards \<and>
   list_all2 stands_for
     [CardObj \<lparr>name = ''As'', rank = 14, suit = CHR ''s''\<rparr>, Token ''Ks'',
      CardObj \<lparr>name = ''Qs'', rank = 12, suit = CHR ''s''\<rparr>, Token ''Js'', Token ''10s'']
     doctest_cards \<and>
   list_all2 (\<lambda>t c. Card_init t = Inr c) [''As'', ''Ks'', ''Qs'', ''Js'', ''10s''] doctest_cards \<and>
   list_all whitespace_run ['' '', '' '', ''  '', [CHR 0x09], '' '', [CHR 0x0A]] \<and>
   list_all (\<lambda>g. g \<noteq> []) (butlast ['' '', ''  '', [CHR 0x09], '' '', [CHR 0x0A]]) \<and>
   Hand_init (Seq [CardObj \<lparr>name = ''As'', rank = 14, suit = CHR ''s''\<rparr>, Token ''Ks'',
      CardObj \<lparr>name = ''Qs'', rank = 12, suit = CHR ''s''\<rparr>, Token ''Js'', Token ''10s''])
     = Inr \<lparr>cards = doctest_cards\<rparr> \<and>
   Hand_init (Str ('' As Ks  Qs'' @ [CHR 0x09] @ ''Js 10s'' @ [CHR 0x0A]))
     = Inr \<lparr>cards = doctest_cards\<rparr> \<and>
   Hand_init (Seq (map CardObj doctest_cards)) = Inr \<lparr>cards = doctest_cards\<rparr> \<and>
   eval \<lparr>cards = doctest_cards\<rparr> = Inr (''straight flush'', 14)"
proof -
  let ?xs = "[CardObj \<lparr>name = ''As'', rank = 14, suit = CHR ''s''\<rparr>, Token ''Ks'',
      CardObj \<lparr>name = ''Qs'', rank = 12, suit = CHR ''s''\<rparr>, Token ''Js'', Token ''10s'']"
  let ?ts = "[''As'', ''Ks'', ''Qs'', ''Js'', ''10s'']"
  let ?gs = "['' '', ''  '', [CHR 0x09], '' '', [CHR 0x0A]]"
  have l: "length doctest_cards = 5" by code_simp
  have d: "distinct doctest_cards" by code_simp
  have a: "list_all2 stands_for ?xs doctest_cards" by code_simp
  have b: "list_all2 (\<lambda>t c. Card_init t = Inr c) ?ts doctest_cards" by code_simp
  have w: "list_all whitespace_run ('' '' # ?gs)" by code_simp
  then have "whitespace_run '' '' \<and> list_all whitespace_run ?gs"
    by (simp only: list.pred_inject)
  then have w': "whitespace_run '' '' \<and> (\<forall>g\<in>set ?gs. whitespace_run g)"
    unfolding list_all_iff by blast
  have g: "list_all (\<lambda>g. g \<noteq> []) (butlast ?gs)" by code_simp
  then have g': "\<forall>g\<in>set (butlast ?gs). g \<noteq> []" by (simp only: list_all_iff)
  have lg: "length ?gs = length ?ts" by simp
  have s: "'' '' @ spaced ?ts ?gs = '' As Ks  Qs'' @ [CHR 0x09] @ ''Js 10s'' @ [CHR 0x0A]"
    by simp
  have e: "eval \<lparr>cards = doctest_cards\<rparr> = Inr (''straight flush'', 14)" by code_simp
  note T = Hand_init_string_and_mixed[OF l d, of ?xs ?ts ?gs "'' ''"]
  from T have 1: "Hand_init (Seq (map CardObj doctest_cards)) = Inr \<lparr>cards = doctest_cards\<rparr>"
    by blast
  from T a have 2: "Hand_init (Seq ?xs) = Inr \<lparr>cards = doctest_cards\<rparr>" by blast
  from T b lg w' g' have "Hand_init (Str ('' '' @ spaced ?ts ?gs)) = Inr \<lparr>cards = doctest_cards\<rparr>"
    by blast
  then have 3: "Hand_init (Str ('' As Ks  Qs'' @ [CHR 0x09] @ ''Js 10s'' @ [CHR 0x0A]))
     = Inr \<lparr>cards = doctest_cards\<rparr>"
    by (simp only: s)
  from l d a b w g 1 2 3 e show ?thesis by blast
qed

text \<open>
  Claim C7 says that every token that is not a rank text followed by a suit character
  is rejected with InvalidCard, the failure of one of the two assertions. On a
  non-empty token that is so (\<open>Card_init_nonempty\<close>, \<open>rank_text_iff\<close>). The empty
  token is not rejected by an assertion: \<^verbatim>\<open>name[-1]\<close> raises IndexError first.
\<close>

theorem Card_init_empty_token: "Card_init '''' = Inl IndexError"
  by (simp add: Card_init_def)

text \<open>
  Claim C2 says that the wheel \<^verbatim>\<open>5c 4c 3d 2h Ah\<close> is a straight and ranks strictly below
  the six-high straight \<^verbatim>\<open>6s 5c 4c 3d 2h\<close>. It is a straight, but its tie-break value is
  14, the ace, against 6; \<^verbatim>\<open><\<close> and \<^verbatim>\<open>>\<close> between the two raise NameError, and \<^verbatim>\<open><=\<close>
  places the six-high straight below the wheel.
\<close>

theorem wheel_against_six_high:
  "Hand_init (Str ''5c 4c 3d 2h Ah'') = Inr (hand ''5c 4c 3d 2h Ah'') \<and>
   Hand_init (Str ''6s 5c 4c 3d 2h'') = Inr (hand ''6s 5c 4c 3d 2h'') \<and>
   eval (hand ''5c 4c 3d 2h Ah'') = Inr (''straight'', 14) \<and>
   eval (hand ''6s 5c 4c 3d 2h'') = Inr (''straight'', 6) \<and>
   Hand_lt (hand ''5c 4c 3d 2h Ah'') (hand ''6s 5c 4c 3d 2h'') = Inl (NameError ''hierarchy'') \<and>
   Hand_gt (hand ''6s 5c 4c 3d 2h'') (hand ''5c 4c 3d 2h Ah'') = Inl (NameError ''hierarchy'') \<and>
   Hand_le (hand ''5c 4c 3d 2h Ah'') (hand ''6s 5c 4c 3d 2h'') = Inr False \<and>
   Hand_le (hand ''6s 5c 4c 3d 2h'') (hand ''5c 4c 3d 2h Ah'') = Inr True"
  by code_simp

text \<open>
  Claim C3 says that \<^verbatim>\<open>A < B\<close> is true when the category rank of \<open>A\<close> is lower, and never
  fails. On a pair against a straight flush (ranks 2 and 9 in the hierarchy table),
  and on the two hands of the method's own doctest, \<^verbatim>\<open>__lt__\<close> raises NameError: the
  bare name \<^verbatim>\<open>hierarchy\<close> is not bound (\<open>Hand_lt_raises\<close>: on all hands).
\<close>

theorem less_than_raises:
  "Hand_init (Str ''6s 6c 2h 3s 9d'') = Inr (hand ''6s 6c 2h 3s 9d'') \<and>
   Hand_init (Str ''2d 3d 4d 5d 6d'') = Inr (hand ''2d 3d 4d 5d 6d'') \<and>
   Hand_init (Str ''3d 4d 5d 6d 7d'') = Inr (hand ''3d 4d 5d 6d 7d'') \<and>
   Hand_lt (hand ''2d 3d 4d 5d 6d'') (hand ''3d 4d 5d 6d 7d'') = Inl (NameError ''hierarchy'') \<and>
   Hand_init (Str ''As Ks Qs Js 10s'') = Inr (hand ''As Ks Qs Js 10s'') \<and>
   eval (hand ''6s 6c 2h 3s 9d'') = Inr (''pair'', 6) \<and>
   eval (hand ''As Ks Qs Js 10s'') = Inr (''straight flush'', 14) \<and>
   map_of hierarchy ''pair'' = Some 2 \<and> map_of hierarchy ''straight flush'' = Some 9 \<and>
   Hand_lt (hand ''6s 6c 2h 3s 9d'') (hand ''As Ks Qs Js 10s'') = Inl (NameError ''hierarchy'')"
  by code_simp

text \<open>
  Claim C4 says that exactly one of equal, less-than, greater-than holds for two hands
  and that less-or-equal is less-than or equal. For a straight flush \<open>A\<close> and a two
  pair \<open>B\<close>, \<^verbatim>\<open>A <= B\<close> is true (the category names are compared as strings), \<^verbatim>\<open>A == B\<close>
  is false, and both \<^verbatim>\<open>A < B\<close> and \<^verbatim>\<open>A > B\<close> raise NameError.
\<close>

theorem comparisons_inconsistent:
  "Hand_init (Str ''As Ks Qs Js 10s'') = Inr (hand ''As Ks Qs Js 10s'') \<and>
   Hand_init (Str ''6s 6c 2h 2s 9d'') = Inr (hand ''6s 6c 2h 2s 9d'') \<and>
   eval (hand ''As Ks Qs Js 10s'') = Inr (''straight flush'', 14) \<and>
   eval (hand ''6s 6c 2h 2s 9d'') = Inr (''two pair'', 6) \<and>
   Hand_le (hand ''As Ks Qs Js 10s'') (hand ''6s 6c 2h 2s 9d'') = Inr True \<and>
   Hand_eq (hand ''As Ks Qs Js 10s'') (hand ''6s 6c 2h 2s 9d'') = Inr False \<and>
   Hand_lt (hand ''As Ks Qs Js 10s'') (hand ''6s 6c 2h 2s 9d'') = Inl (NameError ''hierarchy'') \<and>
   Hand_gt (hand ''As Ks Qs Js 10s'') (hand ''6s 6c 2h 2s 9d'') = Inl (NameError ''hierarchy'')"
  by code_simp

end
